theory Spec2Isabelle
  imports Main "HOL-Library.AList"
begin

section \<open>The castle program: rooms, factory, castle, singleton king, menu loop\<close>

text \<open>
  A shallow embedding of \<^verbatim>\<open>tema3.cpp\<close>. Objects created with
  \<^verbatim>\<open>make_unique\<close> or \<^verbatim>\<open>new\<close> live in an explicit store, an
  association list from addresses to objects, so that identity of objects (the
  singleton, clones) can be stated. A \<^verbatim>\<open>unique_ptr\<close> is an optional
  address, \<open>None\<close> being \<^verbatim>\<open>nullptr\<close>. The standard streams are part
  of the state: \<open>cout\<close> is the text written so far, \<open>cin\<close> the integers still
  to be read (as typed, of any size), \<open>failbit\<close> the failure flag of the input stream.
  Dereferencing a null or dangling pointer, undefined in C++, is the error
  \<open>Nedefinit\<close>.
\<close>

subsection \<open>Data\<close>

type_synonym addr = nat

text \<open>The two concrete classes behind the interface \<^verbatim>\<open>Clona\<close>; neither has a field.\<close>

datatype Clona = CameraTron | Temnita

text \<open>\<^verbatim>\<open>class Castel { std::vector<std::unique_ptr<Clona>> camere; }\<close>\<close>

record Castel =
  camere :: "addr option list"

text \<open>\<^verbatim>\<open>class Rege { Castel castel; }\<close>\<close>

record Rege =
  castel :: Castel

datatype obiect = ObClona Clona | ObRege Rege

datatype eroare = Nedefinit

text \<open>
  The process state: the store, the static member \<^verbatim>\<open>Rege::instanta\<close>, and the
  two streams, the input stream with its failure flag.
\<close>

record lume =
  heap :: "(addr \<times> obiect) list"
  instanta :: "addr option"
  cout :: string
  cin :: "int list"
  failbit :: bool

text \<open>
  The allocation policy of \<^verbatim>\<open>operator new\<close> is not part of the program: it is a
  parameter, a function from the addresses in use to the address handed out.
\<close>

type_synonym alocator = "addr list \<Rightarrow> addr"

definition proaspat :: "alocator \<Rightarrow> bool" where
  "proaspat al \<longleftrightarrow> (\<forall>folosite. al folosite \<notin> set folosite)"

text \<open>A concrete allocator: one past the largest address in use.\<close>

definition aloc_urmator :: alocator where
  "aloc_urmator folosite = Suc (foldr max folosite 0)"

text \<open>A broken allocator, which hands out address 0 every time.\<close>

definition aloc_zero :: alocator where
  "aloc_zero folosite = 0"

definition aloca :: "alocator \<Rightarrow> obiect \<Rightarrow> lume \<Rightarrow> addr \<times> lume" where
  "aloca al ob w =
     (let a = al (map fst (heap w))
      in (a, w\<lparr>heap := AList.update a ob (heap w)\<rparr>))"

definition scrie :: "string \<Rightarrow> lume \<Rightarrow> lume" where
  "scrie t w = w\<lparr>cout := cout w @ t\<rparr>"

subsection \<open>Rooms\<close>

text \<open>The text that \<^verbatim>\<open>info()\<close> of each class sends to \<^verbatim>\<open>std::cout\<close>.\<close>

fun info_text :: "Clona \<Rightarrow> string" where
  "info_text CameraTron = ''camera tronului, ''"
| "info_text Temnita = ''temnita, ''"

text \<open>\<^verbatim>\<open>p->info()\<close>: virtual dispatch on the object stored at \<open>p\<close>.\<close>

definition info :: "addr option \<Rightarrow> lume \<Rightarrow> eroare + lume" where
  "info p w =
     (case p of
        None \<Rightarrow> Inl Nedefinit
      | Some a \<Rightarrow>
          (case map_of (heap w) a of
             Some (ObClona c) \<Rightarrow> Inr (scrie (info_text c) w)
           | _ \<Rightarrow> Inl Nedefinit))"

text \<open>
  \<^verbatim>\<open>Camera<Derivata>::clone\<close>: a new object of the same class, copy-constructed
  from the one at \<open>a\<close>.
\<close>

definition clone :: "alocator \<Rightarrow> addr \<Rightarrow> lume \<Rightarrow> eroare + (addr option \<times> lume)" where
  "clone al a w =
     (case map_of (heap w) a of
        Some (ObClona c) \<Rightarrow> (let (b, w') = aloca al (ObClona c) w in Inr (Some b, w'))
      | _ \<Rightarrow> Inl Nedefinit)"

subsection \<open>Castle\<close>

definition adaugaCamera :: "addr option \<Rightarrow> Castel \<Rightarrow> Castel" where
  "adaugaCamera camera c = c\<lparr>camere := camere c @ [camera]\<rparr>"

text \<open>The range-based \<^verbatim>\<open>for\<close> of \<^verbatim>\<open>Castel::info\<close>.\<close>

fun info_camere :: "addr option list \<Rightarrow> lume \<Rightarrow> eroare + lume" where
  "info_camere [] w = Inr w"
| "info_camere (p # ps) w =
     (case info p w of Inl e \<Rightarrow> Inl e | Inr w' \<Rightarrow> info_camere ps w')"

definition info_Castel :: "Castel \<Rightarrow> lume \<Rightarrow> eroare + lume" where
  "info_Castel c w =
     (case info_camere (camere c) (scrie ''Castelul are: '' w) of
        Inl e \<Rightarrow> Inl e
      | Inr w' \<Rightarrow> Inr (scrie ''\<newline>'' w'))"

subsection \<open>Factory\<close>

text \<open>
  \<^verbatim>\<open>enum TipCamera { CAMERA_TRON, TEMNITA }\<close>: an unscoped enumeration, modelled by
  its integer value so that the \<^verbatim>\<open>default\<close> branch of the switch is a branch of the
  model.
\<close>

type_synonym TipCamera = int

definition CAMERA_TRON :: TipCamera where "CAMERA_TRON = 0"
definition TEMNITA :: TipCamera where "TEMNITA = 1"

definition creareCamera :: "alocator \<Rightarrow> TipCamera \<Rightarrow> lume \<Rightarrow> addr option \<times> lume" where
  "creareCamera al tip w =
     (if tip = CAMERA_TRON then
        (let (a, w') = aloca al (ObClona CameraTron) w in (Some a, w'))
      else if tip = TEMNITA then
        (let (a, w') = aloca al (ObClona Temnita) w in (Some a, w'))
      else (None, w))"

subsection \<open>The singleton\<close>

definition getInstance :: "alocator \<Rightarrow> lume \<Rightarrow> addr \<times> lume" where
  "getInstance al w =
     (case instanta w of
        None \<Rightarrow>
          (let (a, w') = aloca al (ObRege \<lparr>castel = \<lparr>camere = []\<rparr>\<rparr>) w
           in (a, w'\<lparr>instanta := Some a\<rparr>))
      | Some a \<Rightarrow> (a, w))"

definition adaugaCameraCastel :: "addr \<Rightarrow> addr option \<Rightarrow> lume \<Rightarrow> eroare + lume" where
  "adaugaCameraCastel this camera w =
     (case map_of (heap w) this of
        Some (ObRege r) \<Rightarrow>
          Inr (w\<lparr>heap := AList.update this
                 (ObRege (r\<lparr>castel := adaugaCamera camera (castel r)\<rparr>)) (heap w)\<rparr>)
      | _ \<Rightarrow> Inl Nedefinit)"

definition infoCastel :: "addr \<Rightarrow> lume \<Rightarrow> eroare + lume" where
  "infoCastel this w =
     (case map_of (heap w) this of
        Some (ObRege r) \<Rightarrow> info_Castel (castel r) w
      | _ \<Rightarrow> Inl Nedefinit)"

subsection \<open>The menu loop\<close>

definition meniu :: string where
  "meniu = ''1. Adauga o camera a tronului\<newline>'' @ ''2. Adauga o temnita\<newline>''
     @ ''3. Descrie castel\<newline>'' @ ''4. Incheiere operatiune\<newline>''
     @ ''Alege o optiune: ''"

text \<open>The range of the type \<^verbatim>\<open>int\<close>: 32 bits, two's complement.\<close>

definition INT_MAX :: int where "INT_MAX = 2147483647"
definition INT_MIN :: int where "INT_MIN = - 2147483648"

text \<open>
  The extraction \<^verbatim>\<open>operator>>(int&)\<close> of the standard library (C++11 and later), on
  an input of integers in decimal notation. On a stream that has failed nothing is read and
  the variable keeps its value. At the end of the input the extraction fails and the variable
  keeps its value. An integer outside the range of \<^verbatim>\<open>int\<close> is consumed, the variable
  receives the nearest bound of the range, and the stream fails. The program never clears the
  failure flag.
\<close>

definition extrage :: "int \<Rightarrow> int list \<Rightarrow> bool \<Rightarrow> int \<times> int list \<times> bool" where
  "extrage optiune intrare esuat =
     (if esuat then (optiune, intrare, True)
      else case intrare of
             [] \<Rightarrow> (optiune, [], True)
           | x # xs \<Rightarrow>
               if INT_MAX < x then (INT_MAX, xs, True)
               else if x < INT_MIN then (INT_MIN, xs, True)
               else (x, xs, False))"

text \<open>\<^verbatim>\<open>std::cin >> optiune\<close>\<close>

definition citeste :: "int \<Rightarrow> lume \<Rightarrow> int \<times> lume" where
  "citeste optiune w =
     (let (opt, rest, esuat) = extrage optiune (cin w) (failbit w)
      in (opt, w\<lparr>cin := rest, failbit := esuat\<rparr>))"

text \<open>\<^verbatim>\<open>enum Optiune { ADD_CAMERA=1, ADD_TEMNITA, DESC_CASTEL, IESIRE }\<close>\<close>

definition ADD_CAMERA :: int where "ADD_CAMERA = 1"
definition ADD_TEMNITA :: int where "ADD_TEMNITA = 2"
definition DESC_CASTEL :: int where "DESC_CASTEL = 3"
definition IESIRE :: int where "IESIRE = 4"

text \<open>One execution of the body of the \<^verbatim>\<open>while\<close> loop of \<^verbatim>\<open>main\<close>.\<close>

definition iteratie :: "alocator \<Rightarrow> addr \<Rightarrow> int \<Rightarrow> lume \<Rightarrow> eroare + (int \<times> lume)" where
  "iteratie al rege optiune w =
     (let (opt, w1) = citeste optiune (scrie meniu w)
      in if opt = ADD_CAMERA then
           (let (p, w2) = creareCamera al CAMERA_TRON w1
            in case adaugaCameraCastel rege p w2 of
                 Inl e \<Rightarrow> Inl e
               | Inr w3 \<Rightarrow> Inr (opt, scrie ''Camera tronului adaugata.\<newline>'' w3))
         else if opt = ADD_TEMNITA then
           (let (p, w2) = creareCamera al TEMNITA w1
            in case adaugaCameraCastel rege p w2 of
                 Inl e \<Rightarrow> Inl e
               | Inr w3 \<Rightarrow> Inr (opt, scrie ''Temnita adaugata.\<newline>'' w3))
         else if opt = DESC_CASTEL then
           (case infoCastel rege w1 of
              Inl e \<Rightarrow> Inl e
            | Inr w2 \<Rightarrow> Inr (opt, w2))
         else if opt = IESIRE then Inr (opt, scrie ''Iesire program.\<newline>'' w1)
         else Inr (opt, scrie ''Optiunea nu se afla in meniu.\<newline>'' w1))"

text \<open>
  The loop \<^verbatim>\<open>while (optiune != 4)\<close>, run for at most \<open>n\<close> executions of its
  body: the result is the state reached, and the loop has been left when the option
  in it is 4.
\<close>

fun bucla :: "alocator \<Rightarrow> nat \<Rightarrow> addr \<Rightarrow> int \<Rightarrow> lume \<Rightarrow> eroare + (int \<times> lume)" where
  "bucla al 0 rege optiune w = Inr (optiune, w)"
| "bucla al (Suc n) rege optiune w =
     (if optiune \<noteq> 4 then
        (case iteratie al rege optiune w of
           Inl e \<Rightarrow> Inl e
         | Inr (opt, w') \<Rightarrow> bucla al n rege opt w')
      else Inr (optiune, w))"

definition lume_initiala :: "int list \<Rightarrow> lume" where
  "lume_initiala intrare =
     \<lparr>heap = [], instanta = None, cout = [], cin = intrare, failbit = False\<rparr>"

text \<open>The state of \<^verbatim>\<open>main\<close> after at most \<open>n\<close> executions of the loop body.\<close>

definition rulare :: "alocator \<Rightarrow> nat \<Rightarrow> int list \<Rightarrow> eroare + (int \<times> lume)" where
  "rulare al n intrare =
     (let (rege, w) = getInstance al (lume_initiala intrare)
      in bucla al n rege 0 w)"

text \<open>
  \<^verbatim>\<open>main\<close> with fuel \<open>n\<close>: \<open>None\<close> when the loop is still running after \<open>n\<close>
  executions of its body, otherwise the exit status with the final state.
\<close>

definition main :: "alocator \<Rightarrow> nat \<Rightarrow> int list \<Rightarrow> (eroare + (int \<times> lume)) option" where
  "main al n intrare =
     (case rulare al n intrare of
        Inl e \<Rightarrow> Some (Inl e)
      | Inr (opt, w) \<Rightarrow> if opt \<noteq> 4 then None else Some (Inr (0, w)))"

subsection \<open>Observations and a reference semantics\<close>

text \<open>The room a pointer refers to in a state, if it refers to one.\<close>

definition camera_la :: "lume \<Rightarrow> addr option \<Rightarrow> Clona option" where
  "camera_la w p =
     (case p of
        None \<Rightarrow> None
      | Some a \<Rightarrow> (case map_of (heap w) a of Some (ObClona c) \<Rightarrow> Some c | _ \<Rightarrow> None))"

fun este_rege :: "obiect \<Rightarrow> bool" where
  "este_rege (ObRege r) = True"
| "este_rege (ObClona c) = False"

text \<open>The addresses of the \<^verbatim>\<open>Rege\<close> objects that exist in a state.\<close>

definition regi :: "lume \<Rightarrow> addr list" where
  "regi w = map fst (filter (\<lambda>(a, ob). este_rege ob) (heap w))"

text \<open>The castle of the singleton, and its rooms read through the store.\<close>

definition castel_rege :: "lume \<Rightarrow> Castel option" where
  "castel_rege w =
     (case instanta w of
        None \<Rightarrow> None
      | Some a \<Rightarrow> (case map_of (heap w) a of Some (ObRege r) \<Rightarrow> Some (castel r) | _ \<Rightarrow> None))"

definition camere_castel :: "lume \<Rightarrow> Clona option list option" where
  "camere_castel w =
     (case instanta w of
        None \<Rightarrow> None
      | Some a \<Rightarrow>
          (case map_of (heap w) a of
             Some (ObRege r) \<Rightarrow> Some (map (camera_la w) (camere (castel r)))
           | _ \<Rightarrow> None))"

text \<open>What a run shows: the text on standard output and the rooms of the castle.\<close>

definition observat :: "lume \<Rightarrow> string \<times> Clona option list option" where
  "observat w = (cout w, camere_castel w)"

text \<open>A second fresh allocator: one past the sum of the addresses in use.\<close>

definition aloc_suma :: alocator where
  "aloc_suma folosite = Suc (sum_list folosite)"

text \<open>
  A reference semantics of the loop without store: the state is the option, the kinds
  of the rooms added so far, the remaining input, the failure flag of the input and the
  output. The loop of the program is proved to compute what this one does under any allocator
  that hands out unused addresses.
\<close>

type_synonym stare_ref = "int \<times> Clona list \<times> int list \<times> bool \<times> string"

definition pas_ref :: "stare_ref \<Rightarrow> stare_ref" where
  "pas_ref = (\<lambda>(optiune, cs, intrare, esuat, iesire).
     let (opt, rest, esuat') = extrage optiune intrare esuat;
         afisat = iesire @ meniu
     in if opt = 1 then
          (opt, cs @ [CameraTron], rest, esuat', afisat @ ''Camera tronului adaugata.\<newline>'')
        else if opt = 2 then
          (opt, cs @ [Temnita], rest, esuat', afisat @ ''Temnita adaugata.\<newline>'')
        else if opt = 3 then
          (opt, cs, rest, esuat',
           afisat @ ''Castelul are: '' @ concat (map info_text cs) @ ''\<newline>'')
        else if opt = 4 then (opt, cs, rest, esuat', afisat @ ''Iesire program.\<newline>'')
        else (opt, cs, rest, esuat', afisat @ ''Optiunea nu se afla in meniu.\<newline>''))"

fun bucla_ref :: "nat \<Rightarrow> stare_ref \<Rightarrow> stare_ref" where
  "bucla_ref 0 st = st"
| "bucla_ref (Suc n) st = (if fst st \<noteq> 4 then bucla_ref n (pas_ref st) else st)"

text \<open>
  The invariant of the loop: the singleton is the only \<^verbatim>\<open>Rege\<close> in the store, and
  the pointers of its castle refer to rooms of the kinds \<open>cs\<close>, in this order.
\<close>

definition inv_rege :: "addr \<Rightarrow> lume \<Rightarrow> Clona list \<Rightarrow> bool" where
  "inv_rege rege w cs \<longleftrightarrow>
     instanta w = Some rege \<and> regi w = [rege]
     \<and> (\<exists>r. map_of (heap w) rege = Some (ObRege r)
            \<and> map (camera_la w) (camere (castel r)) = map Some cs)"

section \<open>Properties\<close>

lemmas Optiune_defs = ADD_CAMERA_def ADD_TEMNITA_def DESC_CASTEL_def IESIRE_def

subsection \<open>Allocators\<close>

lemma proaspat_aloc_urmator: "proaspat aloc_urmator"
proof -
  have "x \<in> set xs \<Longrightarrow> x \<le> foldr max xs 0" for x :: nat and xs
    by (induction xs) auto
  then show ?thesis
    unfolding proaspat_def aloc_urmator_def by fastforce
qed

lemma proaspat_aloc_suma: "proaspat aloc_suma"
proof -
  have "x \<in> set xs \<Longrightarrow> x \<le> sum_list xs" for x :: nat and xs
    by (induction xs) auto
  then show ?thesis
    unfolding proaspat_def aloc_suma_def by fastforce
qed

subsection \<open>Output of rooms and of the castle\<close>

lemma heap_scrie [simp]: "heap (scrie t w) = heap w" "instanta (scrie t w) = instanta w"
  "cin (scrie t w) = cin w" "failbit (scrie t w) = failbit w" "cout (scrie t w) = cout w @ t"
  by (simp_all add: scrie_def)

lemma scrie_scrie [simp]: "scrie t (scrie u w) = scrie (u @ t) w"
  by (simp add: scrie_def)

lemma scrie_nil [simp]: "scrie [] w = w"
  by (simp add: scrie_def)

lemma camera_la_scrie [simp]: "camera_la (scrie t w) = camera_la w"
proof
  fix p show "camera_la (scrie t w) p = camera_la w p"
    by (cases p) (simp_all add: camera_la_def)
qed

lemma info_camera_la: "camera_la w p = Some c \<Longrightarrow> info p w = Inr (scrie (info_text c) w)"
  by (auto simp: camera_la_def info_def split: option.splits obiect.splits)

lemma info_camere_text:
  "map (camera_la w) ps = map Some cs \<Longrightarrow>
   info_camere ps w = Inr (scrie (concat (map info_text cs)) w)"
proof (induction ps arbitrary: cs w)
  case Nil
  then show ?case by simp
next
  case (Cons p ps)
  then obtain c cs' where cs: "cs = c # cs'" "camera_la w p = Some c"
    "map (camera_la w) ps = map Some cs'"
    by (cases cs) auto
  have "map (camera_la (scrie (info_text c) w)) ps = map Some cs'"
    using cs(3) by simp
  from Cons.IH [OF this] cs show ?case
    by (simp add: info_camera_la)
qed

lemma info_Castel_text:
  "map (camera_la w) (camere c) = map Some cs \<Longrightarrow>
   info_Castel c w = Inr (scrie (''Castelul are: '' @ concat (map info_text cs) @ ''\<newline>'') w)"
proof -
  assume "map (camera_la w) (camere c) = map Some cs"
  then have "map (camera_la (scrie ''Castelul are: '' w)) (camere c) = map Some cs"
    by simp
  from info_camere_text [OF this] show ?thesis
    by (simp add: info_Castel_def)
qed

lemma camere_foldl_adauga:
  "camere (foldl (\<lambda>c p. adaugaCamera p c) c ps) = camere c @ ps"
  by (induction ps arbitrary: c) (simp_all add: adaugaCamera_def)

subsection \<open>The factory\<close>

text \<open>
  C2: for each of the two kinds, \<^verbatim>\<open>creareCamera\<close> returns a non-null pointer to a new
  room, and \<^verbatim>\<open>info\<close> on that room appends the label of the kind to the output:
  \<^verbatim>\<open>camera tronului, \<close> for \<^verbatim>\<open>CAMERA_TRON\<close> and \<^verbatim>\<open>temnita, \<close> for \<^verbatim>\<open>TEMNITA\<close>.
\<close>

theorem creareCamera_info:
  "(\<exists>a w'. creareCamera al CAMERA_TRON w = (Some a, w')
      \<and> info (Some a) w' = Inr (w'\<lparr>cout := cout w' @ ''camera tronului, ''\<rparr>))
   \<and> (\<exists>a w'. creareCamera al TEMNITA w = (Some a, w')
      \<and> info (Some a) w' = Inr (w'\<lparr>cout := cout w' @ ''temnita, ''\<rparr>))"
  by (simp add: creareCamera_def CAMERA_TRON_def TEMNITA_def aloca_def Let_def info_def
      update_conv' scrie_def)

text \<open>
  C5: for a discriminant that is neither \<^verbatim>\<open>CAMERA_TRON\<close> nor \<^verbatim>\<open>TEMNITA\<close>,
  \<^verbatim>\<open>creareCamera\<close> returns \<^verbatim>\<open>nullptr\<close> and leaves the whole state (store, singleton,
  streams) as it was.
\<close>

theorem creareCamera_default:
  "tip \<noteq> CAMERA_TRON \<Longrightarrow> tip \<noteq> TEMNITA \<Longrightarrow> creareCamera al tip w = (None, w)"
  by (simp add: creareCamera_def)

theorem creareCamera_default_witness:
  "(2::int) \<noteq> CAMERA_TRON \<and> 2 \<noteq> TEMNITA
   \<and> creareCamera aloc_urmator 2 (lume_initiala [1, 4]) = (None, lume_initiala [1, 4])"
  using creareCamera_default [of 2 aloc_urmator "lume_initiala [1, 4]"]
  by (simp add: CAMERA_TRON_def TEMNITA_def)

subsection \<open>The castle\<close>

text \<open>
  C3: \<^verbatim>\<open>Castel::info\<close> prints \<^verbatim>\<open>Castelul are: \<close>, then the label of each room in
  the order of insertion, then a newline; for the empty castle it prints the header and the
  newline only; \<^verbatim>\<open>adaugaCamera\<close> appends at the end and has no failure, so a castle built
  by any sequence of additions holds the rooms in the order they were added.
\<close>

theorem Castel_info_ordine:
  "(map (camera_la w) (camere c) = map Some cs \<longrightarrow>
      info_Castel c w
        = Inr (w\<lparr>cout := cout w @ ''Castelul are: '' @ concat (map info_text cs)
                 @ ''\<newline>''\<rparr>))
   \<and> info_Castel \<lparr>camere = []\<rparr> w = Inr (w\<lparr>cout := cout w @ ''Castelul are: '' @ ''\<newline>''\<rparr>)
   \<and> camere (adaugaCamera p c) = camere c @ [p]
   \<and> camere (foldl (\<lambda>k q. adaugaCamera q k) \<lparr>camere = []\<rparr> ps) = ps"
proof (intro conjI impI)
  assume "map (camera_la w) (camere c) = map Some cs"
  from info_Castel_text [OF this]
  show "info_Castel c w
        = Inr (w\<lparr>cout := cout w @ ''Castelul are: '' @ concat (map info_text cs)
                 @ ''\<newline>''\<rparr>)"
    by (simp add: scrie_def)
next
  show "info_Castel \<lparr>camere = []\<rparr> w = Inr (w\<lparr>cout := cout w @ ''Castelul are: '' @ ''\<newline>''\<rparr>)"
    by (simp add: info_Castel_def scrie_def)
next
  show "camere (adaugaCamera p c) = camere c @ [p]"
    by (simp add: adaugaCamera_def)
next
  show "camere (foldl (\<lambda>k q. adaugaCamera q k) \<lparr>camere = []\<rparr> ps) = ps"
    by (simp add: camere_foldl_adauga)
qed

theorem Castel_info_ordine_witness:
  "map (camera_la \<lparr>heap = [(1, ObClona CameraTron), (2, ObClona Temnita)], instanta = None,
                   cout = ''> '', cin = [], failbit = False\<rparr>)
     (camere (foldl (\<lambda>k q. adaugaCamera q k) \<lparr>camere = []\<rparr> [Some 2, Some 1, Some 2]))
     = map Some [Temnita, CameraTron, Temnita]
   \<and> info_Castel (foldl (\<lambda>k q. adaugaCamera q k) \<lparr>camere = []\<rparr> [Some 2, Some 1, Some 2])
        \<lparr>heap = [(1, ObClona CameraTron), (2, ObClona Temnita)], instanta = None,
         cout = ''> '', cin = [], failbit = False\<rparr>
     = Inr \<lparr>heap = [(1, ObClona CameraTron), (2, ObClona Temnita)], instanta = None,
            cout = ''> Castelul are: temnita, camera tronului, temnita, \<newline>'', cin = [], failbit = False\<rparr>"
proof -
  let ?w = "\<lparr>heap = [(1, ObClona CameraTron), (2, ObClona Temnita)], instanta = None,
             cout = ''> '', cin = [], failbit = False\<rparr>"
  let ?c = "foldl (\<lambda>k q. adaugaCamera q k) \<lparr>camere = []\<rparr> [Some 2, Some 1, Some 2]"
  have h: "map (camera_la ?w) (camere ?c) = map Some [Temnita, CameraTron, Temnita]"
    by (simp add: camera_la_def adaugaCamera_def)
  from Castel_info_ordine [where w = ?w and c = ?c and cs = "[Temnita, CameraTron, Temnita]"] h
  have "info_Castel ?c ?w
        = Inr (?w\<lparr>cout := cout ?w @ ''Castelul are: ''
                 @ concat (map info_text [Temnita, CameraTron, Temnita]) @ ''\<newline>''\<rparr>)"
    by blast
  with h show ?thesis
    by simp
qed

subsection \<open>Cloning\<close>

text \<open>
  C4: under an allocator that hands out unused addresses, \<^verbatim>\<open>clone\<close> of a room returns
  a non-null pointer to a new object of the same class, at an address different from the
  source and unused before; every object that existed keeps its address and value, the
  singleton and the streams are untouched, and \<^verbatim>\<open>info\<close> prints the same text for the
  clone as for the source.
\<close>

theorem clone_independent:
  assumes al: "proaspat al" and src: "map_of (heap w) a = Some (ObClona c)"
  shows "\<exists>b w'. clone al a w = Inr (Some b, w') \<and> b \<noteq> a \<and> b \<notin> fst ` set (heap w)
     \<and> map_of (heap w') b = Some (ObClona c)
     \<and> (\<forall>x. x = b \<or> map_of (heap w') x = map_of (heap w) x)
     \<and> instanta w' = instanta w \<and> cout w' = cout w \<and> cin w' = cin w \<and> failbit w' = failbit w
     \<and> info (Some a) w = Inr (w\<lparr>cout := cout w @ info_text c\<rparr>)
     \<and> info (Some a) w' = Inr (w'\<lparr>cout := cout w' @ info_text c\<rparr>)
     \<and> info (Some b) w' = Inr (w'\<lparr>cout := cout w' @ info_text c\<rparr>)"
proof -
  define b where "b = al (map fst (heap w))"
  define w' where "w' = w\<lparr>heap := AList.update b (ObClona c) (heap w)\<rparr>"
  have fresh: "b \<notin> fst ` set (heap w)"
    using al unfolding proaspat_def b_def by (metis set_map)
  have "a \<in> fst ` set (heap w)"
    using src by (auto dest!: map_of_SomeD intro: rev_image_eqI)
  with fresh have ne: "b \<noteq> a" by auto
  have look: "map_of (heap w') = (map_of (heap w))(b \<mapsto> ObClona c)"
    by (simp add: w'_def update_conv')
  have "clone al a w = Inr (Some b, w')"
    by (simp add: clone_def src aloca_def b_def w'_def Let_def)
  moreover have "info (Some a) w = Inr (w\<lparr>cout := cout w @ info_text c\<rparr>)"
    by (simp add: info_def src scrie_def)
  moreover have "info (Some a) w' = Inr (w'\<lparr>cout := cout w' @ info_text c\<rparr>)"
    using ne by (simp add: info_def look src scrie_def)
  moreover have "info (Some b) w' = Inr (w'\<lparr>cout := cout w' @ info_text c\<rparr>)"
    by (simp add: info_def look scrie_def)
  moreover have "instanta w' = instanta w" "cout w' = cout w" "cin w' = cin w"
    "failbit w' = failbit w"
    by (simp_all add: w'_def)
  ultimately show ?thesis
    using fresh ne look by auto
qed

theorem clone_independent_witness:
  "proaspat aloc_urmator
   \<and> map_of (heap \<lparr>heap = [(1, ObClona Temnita)], instanta = None, cout = [], cin = [], failbit = False\<rparr>) 1
       = Some (ObClona Temnita)
   \<and> clone aloc_urmator 1 \<lparr>heap = [(1, ObClona Temnita)], instanta = None, cout = [], cin = [], failbit = False\<rparr>
       = Inr (Some 2, \<lparr>heap = [(1, ObClona Temnita), (2, ObClona Temnita)], instanta = None,
                       cout = [], cin = [], failbit = False\<rparr>)"
proof -
  let ?w = "\<lparr>heap = [(1, ObClona Temnita)], instanta = None, cout = [], cin = [], failbit = False\<rparr>"
  have src: "map_of (heap ?w) 1 = Some (ObClona Temnita)" by simp
  from clone_independent [OF proaspat_aloc_urmator src]
  obtain b w' where "clone aloc_urmator 1 ?w = Inr (Some b, w')" by blast
  moreover have "clone aloc_urmator 1 ?w
      = Inr (Some 2, \<lparr>heap = [(1, ObClona Temnita), (2, ObClona Temnita)], instanta = None,
                       cout = [], cin = [], failbit = False\<rparr>)"
    by (simp add: clone_def aloca_def aloc_urmator_def)
  ultimately show ?thesis
    using proaspat_aloc_urmator src by simp
qed

subsection \<open>The loop invariant\<close>

lemma update_proaspat: "a \<notin> fst ` set h \<Longrightarrow> AList.update a v h = h @ [(a, v)]"
  by (induction h) auto

lemma regi_update_rege:
  "map_of h a = Some (ObRege r) \<Longrightarrow>
   map fst (filter (\<lambda>(a, ob). este_rege ob) (AList.update a (ObRege r') h))
     = map fst (filter (\<lambda>(a, ob). este_rege ob) h)"
  by (induction h) (auto split: if_splits)

lemma inv_rege_scrie [simp]: "inv_rege rege (scrie t w) cs = inv_rege rege w cs"
  by (simp add: inv_rege_def regi_def)

lemma camera_la_SomeD:
  "camera_la w p = Some c \<Longrightarrow> \<exists>a. p = Some a \<and> map_of (heap w) a = Some (ObClona c)"
  by (auto simp: camera_la_def split: option.splits obiect.splits)

lemma camera_la_heap_cong:
  assumes "camera_la w p = Some c"
    and "\<And>a. map_of (heap w) a = Some (ObClona c) \<Longrightarrow> map_of (heap w') a = Some (ObClona c)"
  shows "camera_la w' p = Some c"
  using camera_la_SomeD [OF assms(1)] assms(2) by (auto simp: camera_la_def)

lemma map_camera_la_heap_cong:
  assumes "map (camera_la w) ps = map Some cs"
    and "\<And>a c. map_of (heap w) a = Some (ObClona c) \<Longrightarrow> map_of (heap w') a = Some (ObClona c)"
  shows "map (camera_la w') ps = map Some cs"
  using assms(1)
proof (induction ps arbitrary: cs)
  case Nil
  then show ?case by simp
next
  case (Cons p ps)
  then obtain c cs' where cs: "cs = c # cs'" "camera_la w p = Some c"
    "map (camera_la w) ps = map Some cs'"
    by (cases cs) auto
  have "camera_la w' p = Some c"
    using cs(2) assms(2) by (rule camera_la_heap_cong)
  with Cons.IH [OF cs(3)] cs(1) show ?case by simp
qed

lemma aloca_camera:
  assumes al: "proaspat al" and inv: "inv_rege rege w cs"
  shows "\<exists>a w'. aloca al (ObClona c) w = (a, w') \<and> camera_la w' (Some a) = Some c
     \<and> inv_rege rege w' cs \<and> cout w' = cout w \<and> cin w' = cin w \<and> failbit w' = failbit w"
proof -
  define a where "a = al (map fst (heap w))"
  define w' where "w' = w\<lparr>heap := AList.update a (ObClona c) (heap w)\<rparr>"
  have fresh: "a \<notin> fst ` set (heap w)"
    using al unfolding proaspat_def a_def by (metis set_map)
  have al_eq: "aloca al (ObClona c) w = (a, w')"
    by (simp add: aloca_def a_def w'_def Let_def)
  have look: "map_of (heap w') = (map_of (heap w))(a \<mapsto> ObClona c)"
    by (simp add: w'_def update_conv')
  have old: "map_of (heap w') b = map_of (heap w) b" if "map_of (heap w) b = Some ob" for b ob
  proof -
    from that have "b \<in> fst ` set (heap w)"
      by (auto dest!: map_of_SomeD intro: rev_image_eqI)
    with fresh have "b \<noteq> a" by auto
    then show ?thesis by (simp add: look)
  qed
  from inv obtain r where r: "instanta w = Some rege" "regi w = [rege]"
    "map_of (heap w) rege = Some (ObRege r)"
    "map (camera_la w) (camere (castel r)) = map Some cs"
    by (auto simp: inv_rege_def)
  have "regi w' = regi w"
    by (simp add: regi_def w'_def update_proaspat [OF fresh])
  moreover have "map_of (heap w') rege = Some (ObRege r)"
    using old [OF r(3)] r(3) by simp
  moreover have "map (camera_la w') (camere (castel r)) = map Some cs"
    using r(4) by (rule map_camera_la_heap_cong) (simp add: old)
  moreover have "instanta w' = instanta w"
    by (simp add: w'_def)
  ultimately have "inv_rege rege w' cs"
    using r(1,2) by (auto simp: inv_rege_def)
  moreover have "camera_la w' (Some a) = Some c"
    by (simp add: camera_la_def look)
  moreover have "cout w' = cout w" "cin w' = cin w" "failbit w' = failbit w"
    by (simp_all add: w'_def)
  ultimately show ?thesis using al_eq by blast
qed

lemma creareCamera_inv:
  assumes al: "proaspat al" and inv: "inv_rege rege w cs"
  shows "\<exists>a w'. creareCamera al CAMERA_TRON w = (Some a, w') \<and> camera_la w' (Some a) = Some CameraTron
     \<and> inv_rege rege w' cs \<and> cout w' = cout w \<and> cin w' = cin w \<and> failbit w' = failbit w"
    and "\<exists>a w'. creareCamera al TEMNITA w = (Some a, w') \<and> camera_la w' (Some a) = Some Temnita
     \<and> inv_rege rege w' cs \<and> cout w' = cout w \<and> cin w' = cin w \<and> failbit w' = failbit w"
  using aloca_camera [OF al inv, of CameraTron] aloca_camera [OF al inv, of Temnita]
  by (auto simp: creareCamera_def CAMERA_TRON_def TEMNITA_def)

lemma adaugaCameraCastel_inv:
  assumes inv: "inv_rege rege w cs" and p: "camera_la w p = Some c"
  shows "\<exists>w'. adaugaCameraCastel rege p w = Inr w' \<and> inv_rege rege w' (cs @ [c])
     \<and> cout w' = cout w \<and> cin w' = cin w \<and> failbit w' = failbit w"
proof -
  from inv obtain r where r: "instanta w = Some rege" "regi w = [rege]"
    "map_of (heap w) rege = Some (ObRege r)"
    "map (camera_la w) (camere (castel r)) = map Some cs"
    by (auto simp: inv_rege_def)
  define r' where "r' = r\<lparr>castel := adaugaCamera p (castel r)\<rparr>"
  define w' where "w' = w\<lparr>heap := AList.update rege (ObRege r') (heap w)\<rparr>"
  have res: "adaugaCameraCastel rege p w = Inr w'"
    by (simp add: adaugaCameraCastel_def r(3) w'_def r'_def)
  have look: "map_of (heap w') = (map_of (heap w))(rege \<mapsto> ObRege r')"
    by (simp add: w'_def update_conv')
  have old: "map_of (heap w') b = Some (ObClona k)" if "map_of (heap w) b = Some (ObClona k)" for b k
    using that r(3) by (auto simp: look)
  have "regi w' = regi w"
    by (simp add: regi_def w'_def regi_update_rege [OF r(3)])
  moreover have "map_of (heap w') rege = Some (ObRege r')"
    by (simp add: look)
  moreover have "map (camera_la w') (camere (castel r)) = map Some cs"
    using r(4) by (rule map_camera_la_heap_cong) (simp add: old)
  moreover have "camera_la w' p = Some c"
    using p by (rule camera_la_heap_cong) (simp add: old)
  moreover have "camere (castel r') = camere (castel r) @ [p]"
    by (simp add: r'_def adaugaCamera_def)
  moreover have "instanta w' = instanta w"
    by (simp add: w'_def)
  ultimately have "inv_rege rege w' (cs @ [c])"
    using r(1,2) by (auto simp: inv_rege_def)
  moreover have "cout w' = cout w" "cin w' = cin w" "failbit w' = failbit w"
    by (simp_all add: w'_def)
  ultimately show ?thesis using res by blast
qed

lemma infoCastel_inv:
  assumes inv: "inv_rege rege w cs"
  shows "infoCastel rege w
     = Inr (scrie (''Castelul are: '' @ concat (map info_text cs) @ ''\<newline>'') w)"
proof -
  from inv obtain r where r: "map_of (heap w) rege = Some (ObRege r)"
    "map (camera_la w) (camere (castel r)) = map Some cs"
    by (auto simp: inv_rege_def)
  show ?thesis
    by (simp add: infoCastel_def r(1) info_Castel_text [OF r(2)])
qed

lemma getInstance_initial:
  "\<exists>rege w. getInstance al (lume_initiala intrare) = (rege, w) \<and> inv_rege rege w []
     \<and> cout w = [] \<and> cin w = intrare \<and> failbit w = False"
  by (simp add: getInstance_def lume_initiala_def aloca_def Let_def inv_rege_def regi_def)

lemma inv_rege_cin [simp]:
  "inv_rege rege (w\<lparr>cin := xs, failbit := f\<rparr>) cs = inv_rege rege w cs"
proof -
  have "camera_la (w\<lparr>cin := xs, failbit := f\<rparr>) = camera_la w"
    by (rule ext) (simp add: camera_la_def cong: option.case_cong)
  then show ?thesis by (simp add: inv_rege_def regi_def)
qed

lemma citeste_inv:
  assumes "inv_rege rege w cs" and "extrage optiune (cin w) (failbit w) = (opt, rest, f)"
  shows "\<exists>w1. citeste optiune (scrie meniu w) = (opt, w1)
     \<and> inv_rege rege w1 cs \<and> cout w1 = cout w @ meniu \<and> cin w1 = rest \<and> failbit w1 = f"
  using assms by (simp add: citeste_def)

lemma iteratie_ref:
  assumes al: "proaspat al" and inv: "inv_rege rege w cs"
    and ref: "pas_ref (optiune, cs, cin w, failbit w, cout w) = (opt', cs', i', f', o')"
  shows "\<exists>w'. iteratie al rege optiune w = Inr (opt', w') \<and> inv_rege rege w' cs'
     \<and> cin w' = i' \<and> failbit w' = f' \<and> cout w' = o'"
proof -
  obtain opt rest f where pr: "extrage optiune (cin w) (failbit w) = (opt, rest, f)"
    by (metis prod_cases3)
  from citeste_inv [OF inv pr] obtain w1 where
    w1: "citeste optiune (scrie meniu w) = (opt, w1)" "inv_rege rege w1 cs"
      "cout w1 = cout w @ meniu" "cin w1 = rest" "failbit w1 = f"
    by blast
  consider (c1) "opt = 1" | (c2) "opt = 2" | (c3) "opt = 3" | (c4) "opt = 4"
    | (c5) "opt \<noteq> 1" "opt \<noteq> 2" "opt \<noteq> 3" "opt \<noteq> 4"
    by blast
  then show ?thesis
  proof cases
    case c1
    from creareCamera_inv(1) [OF al w1(2)] obtain a w2 where
      w2: "creareCamera al CAMERA_TRON w1 = (Some a, w2)" "camera_la w2 (Some a) = Some CameraTron"
        "inv_rege rege w2 cs" "cout w2 = cout w1" "cin w2 = cin w1" "failbit w2 = failbit w1"
      by blast
    from adaugaCameraCastel_inv [OF w2(3) w2(2)] obtain w3 where
      w3: "adaugaCameraCastel rege (Some a) w2 = Inr w3" "inv_rege rege w3 (cs @ [CameraTron])"
        "cout w3 = cout w2" "cin w3 = cin w2" "failbit w3 = failbit w2"
      by blast
    have "iteratie al rege optiune w = Inr (opt, scrie ''Camera tronului adaugata.\<newline>'' w3)"
      by (simp add: iteratie_def Optiune_defs w1(1) c1 w2(1) w3(1))
    moreover have "(opt', cs', i', f', o')
        = (opt, cs @ [CameraTron], rest, f, (cout w @ meniu) @ ''Camera tronului adaugata.\<newline>'')"
      using ref by (auto simp: pas_ref_def pr c1)
    ultimately show ?thesis
      using w3 w2 w1 by simp
  next
    case c2
    from creareCamera_inv(2) [OF al w1(2)] obtain a w2 where
      w2: "creareCamera al TEMNITA w1 = (Some a, w2)" "camera_la w2 (Some a) = Some Temnita"
        "inv_rege rege w2 cs" "cout w2 = cout w1" "cin w2 = cin w1" "failbit w2 = failbit w1"
      by blast
    from adaugaCameraCastel_inv [OF w2(3) w2(2)] obtain w3 where
      w3: "adaugaCameraCastel rege (Some a) w2 = Inr w3" "inv_rege rege w3 (cs @ [Temnita])"
        "cout w3 = cout w2" "cin w3 = cin w2" "failbit w3 = failbit w2"
      by blast
    have "iteratie al rege optiune w = Inr (opt, scrie ''Temnita adaugata.\<newline>'' w3)"
      by (simp add: iteratie_def Optiune_defs w1(1) c2 w2(1) w3(1))
    moreover have "(opt', cs', i', f', o')
        = (opt, cs @ [Temnita], rest, f, (cout w @ meniu) @ ''Temnita adaugata.\<newline>'')"
      using ref by (auto simp: pas_ref_def pr c2)
    ultimately show ?thesis
      using w3 w2 w1 by simp
  next
    case c3
    have "iteratie al rege optiune w
        = Inr (opt, scrie (''Castelul are: '' @ concat (map info_text cs) @ ''\<newline>'') w1)"
      by (simp add: iteratie_def Optiune_defs w1(1) c3 infoCastel_inv [OF w1(2)])
    moreover have "(opt', cs', i', f', o')
        = (opt, cs, rest, f, (cout w @ meniu) @ ''Castelul are: '' @ concat (map info_text cs) @ ''\<newline>'')"
      using ref by (auto simp: pas_ref_def pr c3)
    ultimately show ?thesis
      using w1 by simp
  next
    case c4
    have "iteratie al rege optiune w = Inr (opt, scrie ''Iesire program.\<newline>'' w1)"
      by (simp add: iteratie_def Optiune_defs w1(1) c4)
    moreover have "(opt', cs', i', f', o')
        = (opt, cs, rest, f, (cout w @ meniu) @ ''Iesire program.\<newline>'')"
      using ref by (auto simp: pas_ref_def pr c4)
    ultimately show ?thesis
      using w1 by simp
  next
    case c5
    have "iteratie al rege optiune w = Inr (opt, scrie ''Optiunea nu se afla in meniu.\<newline>'' w1)"
      by (simp add: iteratie_def Optiune_defs w1(1) c5)
    moreover have "(opt', cs', i', f', o')
        = (opt, cs, rest, f, (cout w @ meniu) @ ''Optiunea nu se afla in meniu.\<newline>'')"
      using ref by (auto simp: pas_ref_def pr c5)
    ultimately show ?thesis
      using w1 by simp
  qed
qed

lemma bucla_ref_sim:
  assumes al: "proaspat al"
  shows "inv_rege rege w cs \<Longrightarrow>
    bucla_ref n (optiune, cs, cin w, failbit w, cout w) = (opt', cs', i', f', o') \<Longrightarrow>
    \<exists>w'. bucla al n rege optiune w = Inr (opt', w') \<and> inv_rege rege w' cs'
      \<and> cin w' = i' \<and> failbit w' = f' \<and> cout w' = o'"
proof (induction n arbitrary: optiune w cs)
  case 0
  then show ?case by simp
next
  case (Suc n)
  show ?case
  proof (cases "optiune = 4")
    case True
    with Suc.prems show ?thesis by simp
  next
    case False
    obtain opt1 cs1 i1 f1 o1 where
      st: "pas_ref (optiune, cs, cin w, failbit w, cout w) = (opt1, cs1, i1, f1, o1)"
      by (metis prod_cases5)
    from iteratie_ref [OF al Suc.prems(1) st] obtain w1 where
      w1: "iteratie al rege optiune w = Inr (opt1, w1)" "inv_rege rege w1 cs1"
        "cin w1 = i1" "failbit w1 = f1" "cout w1 = o1"
      by blast
    have "bucla_ref n (opt1, cs1, cin w1, failbit w1, cout w1) = (opt', cs', i', f', o')"
      using Suc.prems(2) False st w1(3,4,5) by simp
    from Suc.IH [OF w1(2) this] show ?thesis
      using False w1(1) by simp
  qed
qed

lemma inv_rege_observ:
  "inv_rege rege w cs \<Longrightarrow>
   camere_castel w = Some (map Some cs) \<and> regi w = [rege] \<and> getInstance al w = (rege, w)"
  by (auto simp: inv_rege_def camere_castel_def getInstance_def)

lemma rulare_ref:
  assumes al: "proaspat al"
    and ref: "bucla_ref n (0, [], intrare, False, []) = (opt', cs', i', f', o')"
  shows "\<exists>w'. rulare al n intrare = Inr (opt', w') \<and> cin w' = i' \<and> failbit w' = f'
     \<and> cout w' = o' \<and> camere_castel w' = Some (map Some cs')
     \<and> regi w' = [fst (getInstance al (lume_initiala intrare))]
     \<and> getInstance al w' = (fst (getInstance al (lume_initiala intrare)), w')"
proof -
  from getInstance_initial [of al intrare] obtain rege w where
    w: "getInstance al (lume_initiala intrare) = (rege, w)" "inv_rege rege w []"
      "cout w = []" "cin w = intrare" "failbit w = False"
    by blast
  have "bucla_ref n (0, [], cin w, failbit w, cout w) = (opt', cs', i', f', o')"
    using ref w by simp
  from bucla_ref_sim [OF al w(2) this] obtain w' where
    w': "bucla al n rege 0 w = Inr (opt', w')" "inv_rege rege w' cs'" "cin w' = i'"
      "failbit w' = f'" "cout w' = o'"
    by blast
  have "rulare al n intrare = Inr (opt', w')"
    by (simp add: rulare_def w(1) w'(1))
  with w' inv_rege_observ [OF w'(2), of al] w(1) show ?thesis
    by simp
qed

lemma bucla_ref_iesit: "fst st = 4 \<Longrightarrow> bucla_ref n st = st"
  by (cases n) simp_all

lemma bucla_ref_stabil: "fst (bucla_ref n st) = 4 \<Longrightarrow> bucla_ref (n + k) st = bucla_ref n st"
proof (induction n arbitrary: st)
  case 0
  then show ?case by (simp add: bucla_ref_iesit)
next
  case (Suc n)
  then show ?case by (cases "fst st = 4") simp_all
qed

lemma main_ref:
  assumes al: "proaspat al"
    and ref: "bucla_ref n (0, [], intrare, False, []) = (opt', cs', i', f', o')"
  shows "\<exists>w'. main al n intrare = (if opt' \<noteq> 4 then None else Some (Inr (0, w')))
     \<and> rulare al n intrare = Inr (opt', w') \<and> cin w' = i' \<and> failbit w' = f'
     \<and> cout w' = o' \<and> camere_castel w' = Some (map Some cs')"
proof -
  from rulare_ref [OF al ref] obtain w' where
    w': "rulare al n intrare = Inr (opt', w')" "cin w' = i'" "failbit w' = f'" "cout w' = o'"
      "camere_castel w' = Some (map Some cs')"
    by blast
  then show ?thesis by (auto simp: main_def)
qed

lemma scenariu_ref:
  "bucla_ref 5 (0, [], [1, 2, 1, 3, 4], False, [])
   = (4, [CameraTron, Temnita, CameraTron], [], False,
      meniu @ ''Camera tronului adaugata.\<newline>''
      @ meniu @ ''Temnita adaugata.\<newline>''
      @ meniu @ ''Camera tronului adaugata.\<newline>''
      @ meniu @ ''Castelul are: camera tronului, temnita, camera tronului, \<newline>''
      @ meniu @ ''Iesire program.\<newline>'')"
  by (simp add: numeral_eq_Suc pas_ref_def extrage_def INT_MAX_def INT_MIN_def)

lemma rulare_inv:
  assumes al: "proaspat al"
  shows "\<exists>opt w cs. rulare al n intrare = Inr (opt, w)
     \<and> inv_rege (fst (getInstance al (lume_initiala intrare))) w cs"
proof -
  from getInstance_initial [of al intrare] obtain rege w where
    w: "getInstance al (lume_initiala intrare) = (rege, w)" "inv_rege rege w []"
      "cout w = []" "cin w = intrare" "failbit w = False"
    by blast
  obtain opt' cs' i' f' o' where
    "bucla_ref n (0, [], cin w, failbit w, cout w) = (opt', cs', i', f', o')"
    by (metis prod_cases5)
  from bucla_ref_sim [OF al w(2) this] obtain w' where
    w': "bucla al n rege 0 w = Inr (opt', w')" "inv_rege rege w' cs'"
    by blast
  have "rulare al n intrare = Inr (opt', w')"
    by (simp add: rulare_def w(1) w'(1))
  with w' w(1) show ?thesis by auto
qed

lemma inv_rege_fara_null:
  assumes "inv_rege rege w cs"
  shows "\<exists>c. castel_rege w = Some c \<and> None \<notin> set (camere c)"
proof -
  from assms obtain r where r: "instanta w = Some rege"
    "map_of (heap w) rege = Some (ObRege r)"
    "map (camera_la w) (camere (castel r)) = map Some cs"
    by (auto simp: inv_rege_def)
  have "None \<notin> set (camere (castel r))"
  proof
    assume "None \<in> set (camere (castel r))"
    then have "camera_la w None \<in> set (map (camera_la w) (camere (castel r)))"
      by simp
    then show False
      unfolding r(3) by (auto simp: camera_la_def)
  qed
  then show ?thesis
    by (simp add: castel_rege_def r(1,2))
qed

subsection \<open>Null entries in the castle\<close>

text \<open>
  C6, as stated, fails: \<^verbatim>\<open>adaugaCamera\<close> stores whatever pointer it is given, and the
  \<^verbatim>\<open>default\<close> branch of the factory produces \<^verbatim>\<open>nullptr\<close>; adding that result to the empty
  castle gives a castle with a null entry.
\<close>

theorem adaugaCamera_nullptr_counterexample:
  "None \<notin> set (camere \<lparr>camere = []\<rparr>)
   \<and> None \<in> set (camere (adaugaCamera (fst (creareCamera aloc_urmator 2 (lume_initiala [])))
                         \<lparr>camere = []\<rparr>))"
  by (simp add: adaugaCamera_def creareCamera_def CAMERA_TRON_def TEMNITA_def)

text \<open>
  C6, amended: the empty castle has no null entry; \<^verbatim>\<open>adaugaCamera\<close> of a non-null pointer
  keeps a castle free of null entries; and in every state that \<^verbatim>\<open>main\<close> reaches (under an
  allocator that hands out unused addresses) the castle of the singleton has no null entry.
\<close>

theorem castel_fara_null:
  "None \<notin> set (camere \<lparr>camere = []\<rparr>)
   \<and> (None \<notin> set (camere c) \<longrightarrow> None \<notin> set (camere (adaugaCamera (Some a) c)))
   \<and> (proaspat al \<longrightarrow>
        (\<exists>opt w k. rulare al n intrare = Inr (opt, w) \<and> castel_rege w = Some k
           \<and> None \<notin> set (camere k)))"
proof (intro conjI impI)
  show "None \<notin> set (camere \<lparr>camere = []\<rparr>)"
    by simp
next
  assume "None \<notin> set (camere c)"
  then show "None \<notin> set (camere (adaugaCamera (Some a) c))"
    by (simp add: adaugaCamera_def)
next
  assume "proaspat al"
  from rulare_inv [OF this, of n intrare] inv_rege_fara_null
  show "\<exists>opt w k. rulare al n intrare = Inr (opt, w) \<and> castel_rege w = Some k
           \<and> None \<notin> set (camere k)"
    by blast
qed

theorem castel_fara_null_witness:
  "proaspat aloc_urmator \<and> None \<notin> set (camere \<lparr>camere = [Some 1]\<rparr>)
   \<and> None \<notin> set (camere (adaugaCamera (Some 2) \<lparr>camere = [Some 1]\<rparr>))
   \<and> (\<exists>opt w k. rulare aloc_urmator 3 [1, 2, 3] = Inr (opt, w) \<and> castel_rege w = Some k
         \<and> None \<notin> set (camere k))"
proof -
  have h: "None \<notin> set (camere \<lparr>camere = [Some (1::nat)]\<rparr>)" by simp
  from castel_fara_null [of "\<lparr>camere = [Some 1]\<rparr>" 2 aloc_urmator 3 "[1, 2, 3]"]
  show ?thesis
    using proaspat_aloc_urmator h by blast
qed

subsection \<open>Runs of the program\<close>

text \<open>
  C1: on the input 1, 2, 1, 3, 4 the program exits with status 0 within five executions of
  the loop body, having read the whole input; its output is the menu and the confirmation for
  each of the three additions, then the menu and the line
  \<^verbatim>\<open>Castelul are: camera tronului, temnita, camera tronului, \<close> with its newline, then the menu
  and the exit message.
\<close>

theorem main_scenariu:
  assumes "proaspat al" and "5 \<le> n"
  shows "\<exists>w. main al n [1, 2, 1, 3, 4] = Some (Inr (0, w)) \<and> cin w = []
     \<and> cout w = meniu @ ''Camera tronului adaugata.\<newline>''
         @ meniu @ ''Temnita adaugata.\<newline>''
         @ meniu @ ''Camera tronului adaugata.\<newline>''
         @ meniu @ ''Castelul are: camera tronului, temnita, camera tronului, \<newline>''
         @ meniu @ ''Iesire program.\<newline>''"
proof -
  from assms(2) obtain k where n: "n = 5 + k"
    using le_Suc_ex by blast
  have "bucla_ref n (0, [], [1, 2, 1, 3, 4], False, [])
      = bucla_ref 5 (0, [], [1, 2, 1, 3, 4], False, [])"
    unfolding n by (rule bucla_ref_stabil) (simp add: scenariu_ref)
  from main_ref [OF assms(1) this [unfolded scenariu_ref]] show ?thesis
    by auto
qed

theorem main_scenariu_witness:
  "proaspat aloc_urmator \<and> (5::nat) \<le> 5
   \<and> (\<exists>w. main aloc_urmator 5 [1, 2, 1, 3, 4] = Some (Inr (0, w)) \<and> cin w = []
     \<and> cout w = meniu @ ''Camera tronului adaugata.\<newline>''
         @ meniu @ ''Temnita adaugata.\<newline>''
         @ meniu @ ''Camera tronului adaugata.\<newline>''
         @ meniu @ ''Castelul are: camera tronului, temnita, camera tronului, \<newline>''
         @ meniu @ ''Iesire program.\<newline>'')"
  using main_scenariu [OF proaspat_aloc_urmator, of 5] proaspat_aloc_urmator by simp











text \<open>
  C10: two runs on the same input, under any two allocators that hand out unused addresses,
  reach after the same number of loop bodies states with the same option, the same output, the
  same unread input and the same rooms in the castle (the addresses of the objects may differ);
  hence \<^verbatim>\<open>main\<close> gives the same exit status, output and castle in both, or is still running
  in both.
\<close>

theorem rulare_determinista:
  assumes "proaspat al1" and "proaspat al2"
  shows "(\<exists>opt w1 w2. rulare al1 n intrare = Inr (opt, w1) \<and> rulare al2 n intrare = Inr (opt, w2)
            \<and> cout w1 = cout w2 \<and> cin w1 = cin w2 \<and> failbit w1 = failbit w2
            \<and> camere_castel w1 = camere_castel w2)
     \<and> map_option (map_sum id (map_prod id observat)) (main al1 n intrare)
         = map_option (map_sum id (map_prod id observat)) (main al2 n intrare)"
proof -
  obtain opt' cs' i' f' o' where
    ref: "bucla_ref n (0, [], intrare, False, []) = (opt', cs', i', f', o')"
    by (metis prod_cases5)
  from rulare_ref [OF assms(1) ref] obtain w1 where
    w1: "rulare al1 n intrare = Inr (opt', w1)" "cin w1 = i'" "failbit w1 = f'" "cout w1 = o'"
      "camere_castel w1 = Some (map Some cs')"
    by blast
  from rulare_ref [OF assms(2) ref] obtain w2 where
    w2: "rulare al2 n intrare = Inr (opt', w2)" "cin w2 = i'" "failbit w2 = f'" "cout w2 = o'"
      "camere_castel w2 = Some (map Some cs')"
    by blast
  have "map_option (map_sum id (map_prod id observat)) (main al1 n intrare)
         = map_option (map_sum id (map_prod id observat)) (main al2 n intrare)"
    by (simp add: main_def w1 w2 observat_def)
  with w1 w2 show ?thesis by simp
qed

theorem rulare_determinista_witness:
  "proaspat aloc_urmator \<and> proaspat aloc_suma
   \<and> (\<exists>opt w1 w2. rulare aloc_urmator 3 [1, 2, 4] = Inr (opt, w1)
          \<and> rulare aloc_suma 3 [1, 2, 4] = Inr (opt, w2)
          \<and> map fst (heap w1) = [1, 2, 3] \<and> map fst (heap w2) = [1, 2, 4]
          \<and> cout w1 = cout w2 \<and> cin w1 = cin w2 \<and> camere_castel w1 = camere_castel w2)
   \<and> map_option (map_sum id (map_prod id observat)) (main aloc_urmator 3 [1, 2, 4])
       = map_option (map_sum id (map_prod id observat)) (main aloc_suma 3 [1, 2, 4])"
proof -
  have r1: "\<exists>w. rulare aloc_urmator 3 [1, 2, 4] = Inr (4, w) \<and> map fst (heap w) = [1, 2, 3]"
    by (simp add: rulare_def numeral_eq_Suc getInstance_def lume_initiala_def aloca_def
        aloc_urmator_def iteratie_def Optiune_defs citeste_def extrage_def INT_MAX_def INT_MIN_def scrie_def creareCamera_def CAMERA_TRON_def
        TEMNITA_def adaugaCameraCastel_def adaugaCamera_def)
  have r2: "\<exists>w. rulare aloc_suma 3 [1, 2, 4] = Inr (4, w) \<and> map fst (heap w) = [1, 2, 4]"
    by (simp add: rulare_def numeral_eq_Suc getInstance_def lume_initiala_def aloca_def
        aloc_suma_def iteratie_def Optiune_defs citeste_def extrage_def INT_MAX_def INT_MIN_def scrie_def creareCamera_def CAMERA_TRON_def
        TEMNITA_def adaugaCameraCastel_def adaugaCamera_def)
  from rulare_determinista [OF proaspat_aloc_urmator proaspat_aloc_suma, of 3 "[1, 2, 4]"]
  obtain opt w1 w2 where
    d: "rulare aloc_urmator 3 [1, 2, 4] = Inr (opt, w1)" "rulare aloc_suma 3 [1, 2, 4] = Inr (opt, w2)"
      "cout w1 = cout w2" "cin w1 = cin w2" "camere_castel w1 = camere_castel w2"
    and m: "map_option (map_sum id (map_prod id observat)) (main aloc_urmator 3 [1, 2, 4])
       = map_option (map_sum id (map_prod id observat)) (main aloc_suma 3 [1, 2, 4])"
    by blast
  from r1 d(1) have "map fst (heap w1) = [1, 2, 3]" by auto
  moreover from r2 d(2) have "map fst (heap w2) = [1, 2, 4]" by auto
  ultimately have "\<exists>opt w1 w2. rulare aloc_urmator 3 [1, 2, 4] = Inr (opt, w1)
          \<and> rulare aloc_suma 3 [1, 2, 4] = Inr (opt, w2)
          \<and> map fst (heap w1) = [1, 2, 3] \<and> map fst (heap w2) = [1, 2, 4]
          \<and> cout w1 = cout w2 \<and> cin w1 = cin w2 \<and> camere_castel w1 = camere_castel w2"
    using d by (intro exI [of _ opt] exI [of _ w1] exI [of _ w2]) simp
  with proaspat_aloc_urmator proaspat_aloc_suma m show ?thesis
    by (intro conjI)
qed

text \<open>
  The allocator matters: one that hands out an address in use lets the first room overwrite
  the singleton, and the program then calls a method on an object that is no longer there.
\<close>

lemma rulare_aloc_zero:
  "rulare aloc_zero 1 [1] = Inl Nedefinit"
  by (simp add: rulare_def getInstance_def lume_initiala_def aloca_def
      aloc_zero_def iteratie_def Optiune_defs citeste_def extrage_def INT_MAX_def INT_MIN_def scrie_def creareCamera_def CAMERA_TRON_def TEMNITA_def
      adaugaCameraCastel_def adaugaCamera_def)

subsection \<open>An option outside the menu\<close>

lemma info_cout: "info p w = Inr w' \<Longrightarrow> \<exists>t. cout w' = cout w @ t"
  by (auto simp: info_def split: option.splits obiect.splits)

lemma info_camere_cout: "info_camere ps w = Inr w' \<Longrightarrow> \<exists>t. cout w' = cout w @ t"
proof (induction ps arbitrary: w)
  case Nil
  then show ?case by simp
next
  case (Cons p ps)
  then obtain w1 where w1: "info p w = Inr w1" "info_camere ps w1 = Inr w'"
    by (auto split: sum.splits)
  from info_cout [OF w1(1)] Cons.IH [OF w1(2)] show ?case
    by auto
qed

lemma infoCastel_cout: "infoCastel rege w = Inr w' \<Longrightarrow> \<exists>t. cout w' = cout w @ t"
  by (auto simp: infoCastel_def info_Castel_def split: option.splits obiect.splits sum.splits
      dest!: info_camere_cout)

lemma creareCamera_cout: "cout (snd (creareCamera al tip w)) = cout w"
  by (simp add: creareCamera_def aloca_def Let_def)

lemma adaugaCameraCastel_cout: "adaugaCameraCastel rege p w = Inr w' \<Longrightarrow> cout w' = cout w"
  by (auto simp: adaugaCameraCastel_def split: option.splits obiect.splits)

lemma citeste_cout: "cout (snd (citeste optiune w)) = cout w"
  by (simp add: citeste_def split: prod.splits)

lemma iteratie_meniu:
  assumes "iteratie al rege optiune w = Inr (opt', w')"
  shows "\<exists>t. cout w' = cout w @ meniu @ t"
proof -
  obtain opt w1 where w1: "citeste optiune (scrie meniu w) = (opt, w1)"
    by (cases "citeste optiune (scrie meniu w)")
  have c1: "cout w1 = cout w @ meniu"
    using citeste_cout [of optiune "scrie meniu w"] w1 by simp
  consider (c1) "opt = 1" | (c2) "opt = 2" | (c3) "opt = 3" | (c4) "opt = 4"
    | (c5) "opt \<noteq> 1" "opt \<noteq> 2" "opt \<noteq> 3" "opt \<noteq> 4"
    by blast
  then show ?thesis
  proof cases
    case c1
    obtain p w2 where w2: "creareCamera al CAMERA_TRON w1 = (p, w2)"
      by (cases "creareCamera al CAMERA_TRON w1")
    with assms w1 c1 obtain w3 where w3: "adaugaCameraCastel rege p w2 = Inr w3"
      "w' = scrie ''Camera tronului adaugata.\<newline>'' w3"
      by (auto simp: iteratie_def Optiune_defs split: sum.splits)
    from creareCamera_cout [of al CAMERA_TRON w1] w2 adaugaCameraCastel_cout [OF w3(1)] w3(2)
    show ?thesis by (simp add: \<open>cout w1 = cout w @ meniu\<close>)
  next
    case c2
    obtain p w2 where w2: "creareCamera al TEMNITA w1 = (p, w2)"
      by (cases "creareCamera al TEMNITA w1")
    with assms w1 c2 obtain w3 where w3: "adaugaCameraCastel rege p w2 = Inr w3"
      "w' = scrie ''Temnita adaugata.\<newline>'' w3"
      by (auto simp: iteratie_def Optiune_defs split: sum.splits)
    from creareCamera_cout [of al TEMNITA w1] w2 adaugaCameraCastel_cout [OF w3(1)] w3(2)
    show ?thesis by (simp add: \<open>cout w1 = cout w @ meniu\<close>)
  next
    case c3
    with assms w1 have "infoCastel rege w1 = Inr w'"
      by (auto simp: iteratie_def Optiune_defs split: sum.splits)
    from infoCastel_cout [OF this] show ?thesis
      by (auto simp: \<open>cout w1 = cout w @ meniu\<close>)
  next
    case c4
    with assms w1 show ?thesis
      by (auto simp: iteratie_def Optiune_defs \<open>cout w1 = cout w @ meniu\<close>)
  next
    case c5
    with assms w1 show ?thesis
      by (auto simp: iteratie_def Optiune_defs \<open>cout w1 = cout w @ meniu\<close>)
  qed
qed

text \<open>
  C8: when the loop reads an integer other than 1, 2, 3 and 4 (such as 5), the body prints the
  menu and the message \<^verbatim>\<open>Optiunea nu se afla in meniu.\<close>, consumes that integer and changes
  nothing else: the store, the singleton and the rooms of the castle are as before. The loop
  goes on with the next execution of the body, which prints the menu again. This holds for
  an integer outside the range of \<^verbatim>\<open>int\<close> as well: the option is then the nearest bound of
  the range and the input stream has failed.
\<close>

theorem optiune_invalida:
  assumes "optiune \<noteq> 4" and "\<not> failbit w" and "cin w = x # rest"
    and "x \<noteq> 1" and "x \<noteq> 2" and "x \<noteq> 3" and "x \<noteq> 4"
    and "v = (if INT_MAX < x then INT_MAX else if x < INT_MIN then INT_MIN else x)"
    and "w' = w\<lparr>cout := cout w @ meniu @ ''Optiunea nu se afla in meniu.\<newline>'', cin := rest,
                 failbit := (INT_MAX < x \<or> x < INT_MIN)\<rparr>"
  shows "iteratie al rege optiune w = Inr (v, w')
     \<and> heap w' = heap w \<and> instanta w' = instanta w
     \<and> castel_rege w' = castel_rege w \<and> camere_castel w' = camere_castel w
     \<and> bucla al (Suc n) rege optiune w = bucla al n rege v w'
     \<and> bucla al (Suc (Suc n)) rege optiune w
         = (case iteratie al rege v w' of Inl e \<Rightarrow> Inl e | Inr (opt, u) \<Rightarrow> bucla al n rege opt u)
     \<and> (\<forall>opt u. iteratie al rege v w' = Inr (opt, u) \<longrightarrow>
           (\<exists>t. cout u = cout w @ meniu @ ''Optiunea nu se afla in meniu.\<newline>'' @ meniu @ t))"
proof -
  have v: "v \<noteq> 1" "v \<noteq> 2" "v \<noteq> 3" "v \<noteq> 4"
    using assms(4-8) by (simp_all add: INT_MAX_def INT_MIN_def)
  have ex: "extrage optiune (cin w) (failbit w) = (v, rest, INT_MAX < x \<or> x < INT_MIN)"
    using assms(2,3,8) by (auto simp: extrage_def)
  have it: "iteratie al rege optiune w = Inr (v, w')"
    using v assms(9) by (simp add: iteratie_def Optiune_defs citeste_def ex scrie_def)
  have h: "heap w' = heap w" "instanta w' = instanta w"
    using assms(9) by simp_all
  have "camera_la w' = camera_la w"
    by (rule ext) (simp add: camera_la_def h cong: option.case_cong)
  then have c: "castel_rege w' = castel_rege w" "camere_castel w' = camere_castel w"
    by (simp_all add: castel_rege_def camere_castel_def h split: option.splits obiect.splits)
  have b: "bucla al (Suc n) rege optiune w = bucla al n rege v w'" for n
    using assms(1) it by simp
  have b2: "bucla al (Suc (Suc n)) rege optiune w
         = (case iteratie al rege v w' of Inl e \<Rightarrow> Inl e | Inr (opt, u) \<Rightarrow> bucla al n rege opt u)"
    unfolding b using v(4) by simp
  have "\<exists>t. cout u = cout w @ meniu @ ''Optiunea nu se afla in meniu.\<newline>'' @ meniu @ t"
    if "iteratie al rege v w' = Inr (opt, u)" for opt u
    using iteratie_meniu [OF that] assms(9) by simp
  with it h c b b2 show ?thesis by blast
qed

theorem optiune_invalida_witness:
  "(0::int) \<noteq> 4 \<and> (5::int) \<noteq> 1 \<and> (5::int) \<noteq> 2 \<and> (5::int) \<noteq> 3 \<and> (5::int) \<noteq> 4
   \<and> iteratie aloc_urmator 1 0
         \<lparr>heap = [(1, ObRege \<lparr>castel = \<lparr>camere = []\<rparr>\<rparr>)], instanta = Some 1, cout = [],
          cin = [5, 3], failbit = False\<rparr>
       = Inr (5, \<lparr>heap = [(1, ObRege \<lparr>castel = \<lparr>camere = []\<rparr>\<rparr>)], instanta = Some 1,
                  cout = meniu @ ''Optiunea nu se afla in meniu.\<newline>'', cin = [3],
                  failbit = False\<rparr>)
   \<and> bucla aloc_urmator 2 1 0
         \<lparr>heap = [(1, ObRege \<lparr>castel = \<lparr>camere = []\<rparr>\<rparr>)], instanta = Some 1, cout = [],
          cin = [5, 3], failbit = False\<rparr>
       = Inr (3, \<lparr>heap = [(1, ObRege \<lparr>castel = \<lparr>camere = []\<rparr>\<rparr>)], instanta = Some 1,
                  cout = meniu @ ''Optiunea nu se afla in meniu.\<newline>'' @ meniu
                    @ ''Castelul are: \<newline>'', cin = [], failbit = False\<rparr>)"
proof -
  let ?w = "\<lparr>heap = [(1, ObRege \<lparr>castel = \<lparr>camere = []\<rparr>\<rparr>)], instanta = Some 1, cout = [],
             cin = [5, 3], failbit = False\<rparr>"
  let ?w' = "\<lparr>heap = [(1, ObRege \<lparr>castel = \<lparr>camere = []\<rparr>\<rparr>)], instanta = Some 1,
              cout = meniu @ ''Optiunea nu se afla in meniu.\<newline>'', cin = [3],
              failbit = False\<rparr>"
  have v: "(5::int) = (if INT_MAX < 5 then INT_MAX else if 5 < INT_MIN then INT_MIN else 5)"
    by (simp add: INT_MAX_def INT_MIN_def)
  have w': "?w' = ?w\<lparr>cout := cout ?w @ meniu @ ''Optiunea nu se afla in meniu.\<newline>'',
                      cin := [3], failbit := (INT_MAX < 5 \<or> 5 < INT_MIN)\<rparr>"
    by (simp add: INT_MAX_def INT_MIN_def)
  have urm: "iteratie aloc_urmator 1 5 ?w'
      = Inr (3, \<lparr>heap = [(1, ObRege \<lparr>castel = \<lparr>camere = []\<rparr>\<rparr>)], instanta = Some 1,
                  cout = meniu @ ''Optiunea nu se afla in meniu.\<newline>'' @ meniu
                    @ ''Castelul are: \<newline>'', cin = [], failbit = False\<rparr>)"
    by (simp add: iteratie_def Optiune_defs citeste_def extrage_def INT_MAX_def INT_MIN_def
        scrie_def infoCastel_def info_Castel_def)
  have hyps: "(0::int) \<noteq> 4" "\<not> failbit ?w" "cin ?w = 5 # [3]" "(5::int) \<noteq> 1" "(5::int) \<noteq> 2"
    "(5::int) \<noteq> 3" "(5::int) \<noteq> 4"
    by simp_all
  note t = optiune_invalida [OF hyps v w', of aloc_urmator 1 0]
  from t have a: "iteratie aloc_urmator 1 0 ?w = Inr (5, ?w')"
    by (rule conjunct1)
  from t have "bucla aloc_urmator (Suc (Suc 0)) 1 0 ?w
      = (case iteratie aloc_urmator 1 5 ?w' of Inl e \<Rightarrow> Inl e
         | Inr (opt, u) \<Rightarrow> bucla aloc_urmator 0 1 opt u)"
    by blast
  then have b: "bucla aloc_urmator 2 1 0 ?w
      = Inr (3, \<lparr>heap = [(1, ObRege \<lparr>castel = \<lparr>camere = []\<rparr>\<rparr>)], instanta = Some 1,
                  cout = meniu @ ''Optiunea nu se afla in meniu.\<newline>'' @ meniu
                    @ ''Castelul are: \<newline>'', cin = [], failbit = False\<rparr>)"
    unfolding urm numeral_2_eq_2 by simp
  from hyps(1,4-7) a b show ?thesis
    by (intro conjI)
qed

subsection \<open>The singleton\<close>

lemma getInstance_idem: "getInstance al (snd (getInstance al w)) = getInstance al w"
  by (cases "instanta w") (simp_all add: getInstance_def aloca_def Let_def)

lemma getInstance_repetat:
  "((\<lambda>(r, v). getInstance al v) ^^ k) (getInstance al w) = getInstance al w"
proof (induction k)
  case 0
  then show ?case by simp
next
  case (Suc k)
  then show ?case
    using getInstance_idem [of al w] by (simp add: case_prod_unfold)
qed

lemma inv_rege_vizibil:
  assumes al: "proaspat al" and inv: "inv_rege rege w cs"
    and tip: "tip = CAMERA_TRON \<and> c = CameraTron \<or> tip = TEMNITA \<and> c = Temnita"
  shows "\<exists>p w1 w2. creareCamera al tip w = (Some p, w1)
     \<and> getInstance al w1 = (rege, w1)
     \<and> adaugaCameraCastel rege (Some p) w1 = Inr w2
     \<and> getInstance al w2 = (rege, w2) \<and> regi w2 = [rege]
     \<and> infoCastel rege w2
         = Inr (w2\<lparr>cout := cout w2 @ ''Castelul are: '' @ concat (map info_text (cs @ [c]))
                   @ ''\<newline>''\<rparr>)"
proof -
  from tip creareCamera_inv [OF al inv] obtain p w1 where
    w1: "creareCamera al tip w = (Some p, w1)" "camera_la w1 (Some p) = Some c"
      "inv_rege rege w1 cs"
    by blast
  from adaugaCameraCastel_inv [OF w1(3) w1(2)] obtain w2 where
    w2: "adaugaCameraCastel rege (Some p) w1 = Inr w2" "inv_rege rege w2 (cs @ [c])"
    by blast
  from infoCastel_inv [OF w2(2)] have
    "infoCastel rege w2
         = Inr (w2\<lparr>cout := cout w2 @ ''Castelul are: '' @ concat (map info_text (cs @ [c]))
                   @ ''\<newline>''\<rparr>)"
    by (simp add: scrie_def)
  with w1 w2 inv_rege_observ [OF w1(3), of al] inv_rege_observ [OF w2(2), of al]
  show ?thesis by auto
qed

text \<open>
  C7: \<^verbatim>\<open>getInstance\<close> called again any number of times returns the same address and
  changes nothing. In every state that \<^verbatim>\<open>main\<close> reaches, \<^verbatim>\<open>getInstance\<close> returns the
  address it returned at the start, and the store holds exactly one \<^verbatim>\<open>Rege\<close>; a room
  added through one reference is printed by \<^verbatim>\<open>infoCastel\<close> through a reference obtained
  by a later call, after the rooms that were there.
\<close>

theorem Rege_singleton:
  "((\<lambda>(r, v). getInstance al v) ^^ k) (getInstance al w0) = getInstance al w0
   \<and> (proaspat al \<longrightarrow>
        (\<exists>rege opt w cs. rulare al n intrare = Inr (opt, w)
          \<and> rege = fst (getInstance al (lume_initiala intrare))
          \<and> getInstance al w = (rege, w) \<and> regi w = [rege] \<and> length (regi w) \<le> 1
          \<and> camere_castel w = Some (map Some cs)
          \<and> (\<forall>tip c. tip = CAMERA_TRON \<and> c = CameraTron \<or> tip = TEMNITA \<and> c = Temnita \<longrightarrow>
               (\<exists>r1 r2 p w1 w2. getInstance al w = (r1, w)
                  \<and> creareCamera al tip w = (Some p, w1)
                  \<and> adaugaCameraCastel r1 (Some p) w1 = Inr w2
                  \<and> getInstance al w2 = (r2, w2) \<and> r2 = r1 \<and> length (regi w2) \<le> 1
                  \<and> infoCastel r2 w2
                      = Inr (w2\<lparr>cout := cout w2 @ ''Castelul are: ''
                               @ concat (map info_text (cs @ [c])) @ ''\<newline>''\<rparr>)))))"
proof (intro conjI impI)
  show "((\<lambda>(r, v). getInstance al v) ^^ k) (getInstance al w0) = getInstance al w0"
    by (rule getInstance_repetat)
next
  assume al: "proaspat al"
  define rege where "rege = fst (getInstance al (lume_initiala intrare))"
  from rulare_inv [OF al, of n intrare] obtain opt w cs where
    w: "rulare al n intrare = Inr (opt, w)" "inv_rege rege w cs"
    unfolding rege_def by blast
  note ob = inv_rege_observ [OF w(2), of al]
  have "\<exists>r1 r2 p w1 w2. getInstance al w = (r1, w)
                  \<and> creareCamera al tip w = (Some p, w1)
                  \<and> adaugaCameraCastel r1 (Some p) w1 = Inr w2
                  \<and> getInstance al w2 = (r2, w2) \<and> r2 = r1 \<and> length (regi w2) \<le> 1
                  \<and> infoCastel r2 w2
                      = Inr (w2\<lparr>cout := cout w2 @ ''Castelul are: ''
                               @ concat (map info_text (cs @ [c])) @ ''\<newline>''\<rparr>)"
    if "tip = CAMERA_TRON \<and> c = CameraTron \<or> tip = TEMNITA \<and> c = Temnita" for tip c
  proof -
    from inv_rege_vizibil [OF al w(2) that] obtain p w1 w2 where
      "creareCamera al tip w = (Some p, w1)" "adaugaCameraCastel rege (Some p) w1 = Inr w2"
      "getInstance al w2 = (rege, w2)" "regi w2 = [rege]"
      "infoCastel rege w2
         = Inr (w2\<lparr>cout := cout w2 @ ''Castelul are: '' @ concat (map info_text (cs @ [c]))
                   @ ''\<newline>''\<rparr>)"
      by blast
    with ob show ?thesis by simp
  qed
  with w(1) ob
  show "\<exists>rege opt w cs. rulare al n intrare = Inr (opt, w)
          \<and> rege = fst (getInstance al (lume_initiala intrare))
          \<and> getInstance al w = (rege, w) \<and> regi w = [rege] \<and> length (regi w) \<le> 1
          \<and> camere_castel w = Some (map Some cs)
          \<and> (\<forall>tip c. tip = CAMERA_TRON \<and> c = CameraTron \<or> tip = TEMNITA \<and> c = Temnita \<longrightarrow>
               (\<exists>r1 r2 p w1 w2. getInstance al w = (r1, w)
                  \<and> creareCamera al tip w = (Some p, w1)
                  \<and> adaugaCameraCastel r1 (Some p) w1 = Inr w2
                  \<and> getInstance al w2 = (r2, w2) \<and> r2 = r1 \<and> length (regi w2) \<le> 1
                  \<and> infoCastel r2 w2
                      = Inr (w2\<lparr>cout := cout w2 @ ''Castelul are: ''
                               @ concat (map info_text (cs @ [c])) @ ''\<newline>''\<rparr>)))"
    unfolding rege_def [symmetric]
    by (intro exI [of _ rege] exI [of _ opt] exI [of _ w] exI [of _ cs]) simp_all
qed

theorem Rege_singleton_witness:
  "proaspat aloc_urmator
   \<and> ((\<lambda>(r, v). getInstance aloc_urmator v) ^^ 3) (getInstance aloc_urmator (lume_initiala []))
       = getInstance aloc_urmator (lume_initiala [])
   \<and> (\<exists>rege opt w cs. rulare aloc_urmator 2 [1, 2] = Inr (opt, w)
          \<and> getInstance aloc_urmator w = (rege, w) \<and> regi w = [rege]
          \<and> camere_castel w = Some (map Some cs)
          \<and> (\<exists>r1 r2 p w1 w2. getInstance aloc_urmator w = (r1, w)
                \<and> creareCamera aloc_urmator CAMERA_TRON w = (Some p, w1)
                \<and> adaugaCameraCastel r1 (Some p) w1 = Inr w2
                \<and> getInstance aloc_urmator w2 = (r2, w2) \<and> r2 = r1
                \<and> infoCastel r2 w2
                    = Inr (w2\<lparr>cout := cout w2 @ ''Castelul are: ''
                             @ concat (map info_text (cs @ [CameraTron])) @ ''\<newline>''\<rparr>)))"
proof -
  note t = Rege_singleton [of 3 aloc_urmator "lume_initiala []" 2 "[1, 2]"]
  from t have a: "((\<lambda>(r, v). getInstance aloc_urmator v) ^^ 3)
       (getInstance aloc_urmator (lume_initiala []))
       = getInstance aloc_urmator (lume_initiala [])"
    by (rule conjunct1)
  from t proaspat_aloc_urmator obtain rege opt w cs where
    w: "rulare aloc_urmator 2 [1, 2] = Inr (opt, w)" "getInstance aloc_urmator w = (rege, w)"
      "regi w = [rege]" "camere_castel w = Some (map Some cs)"
    and v: "\<forall>tip c. tip = CAMERA_TRON \<and> c = CameraTron \<or> tip = TEMNITA \<and> c = Temnita \<longrightarrow>
               (\<exists>r1 r2 p w1 w2. getInstance aloc_urmator w = (r1, w)
                  \<and> creareCamera aloc_urmator tip w = (Some p, w1)
                  \<and> adaugaCameraCastel r1 (Some p) w1 = Inr w2
                  \<and> getInstance aloc_urmator w2 = (r2, w2) \<and> r2 = r1 \<and> length (regi w2) \<le> 1
                  \<and> infoCastel r2 w2
                      = Inr (w2\<lparr>cout := cout w2 @ ''Castelul are: ''
                               @ concat (map info_text (cs @ [c])) @ ''\<newline>''\<rparr>))"
    by blast
  from v have "\<exists>r1 r2 p w1 w2. getInstance aloc_urmator w = (r1, w)
                \<and> creareCamera aloc_urmator CAMERA_TRON w = (Some p, w1)
                \<and> adaugaCameraCastel r1 (Some p) w1 = Inr w2
                \<and> getInstance aloc_urmator w2 = (r2, w2) \<and> r2 = r1
                \<and> infoCastel r2 w2
                    = Inr (w2\<lparr>cout := cout w2 @ ''Castelul are: ''
                             @ concat (map info_text (cs @ [CameraTron])) @ ''\<newline>''\<rparr>)"
    by blast
  with w have "\<exists>rege opt w cs. rulare aloc_urmator 2 [1, 2] = Inr (opt, w)
          \<and> getInstance aloc_urmator w = (rege, w) \<and> regi w = [rege]
          \<and> camere_castel w = Some (map Some cs)
          \<and> (\<exists>r1 r2 p w1 w2. getInstance aloc_urmator w = (r1, w)
                \<and> creareCamera aloc_urmator CAMERA_TRON w = (Some p, w1)
                \<and> adaugaCameraCastel r1 (Some p) w1 = Inr w2
                \<and> getInstance aloc_urmator w2 = (r2, w2) \<and> r2 = r1
                \<and> infoCastel r2 w2
                    = Inr (w2\<lparr>cout := cout w2 @ ''Castelul are: ''
                             @ concat (map info_text (cs @ [CameraTron])) @ ''\<newline>''\<rparr>))"
    by blast
  with proaspat_aloc_urmator a show ?thesis
    by (intro conjI)
qed

end
